theory Spec2Isabelle
  imports Main "HOL-Library.AList"
begin

section \<open>The course scraper of \<open>src/scrape.ts\<close>\<close>

text \<open>
  The theory embeds the two pure parts of \<open>src/scrape.ts\<close>: the conversion of a table's
  cell matrix into field records (the body of \<open>scrape\<close>, lines 157 to 196) and the link
  discovery of \<open>discoverCourseLinks\<close> (lines 31 to 90).

  A JavaScript string is a \<open>string\<close>; its characters are read as the code units 0 to 255
  (text with other code units is outside the model, and so is the engine's limit on the
  number of arguments that \<open>Math.max(...)\<close> can take).
  A \<open>CourseRow\<close> (a \<open>Record<string, string>\<close>) is an association list that holds each key
  once, in the order in which the keys were first assigned. (JavaScript enumerates keys
  that are array indices before the others; no statement below depends on the order of
  the keys inside one record with such keys.)
\<close>

subsection \<open>JavaScript values and string operations\<close>

type_synonym CourseRow = "(string \<times> string) list"

datatype js_error = TypeError | EvaluateError

text \<open>The results of \<open>Math.max\<close> on array lengths: \<open>Math.max()\<close> is \<open>-Infinity\<close>.\<close>

datatype jsnum = NegInfinity | Num nat

fun js_max :: "nat \<Rightarrow> jsnum \<Rightarrow> jsnum" where
  "js_max n NegInfinity = Num n"
| "js_max n (Num k) = Num (max k n)"

definition Math_max :: "nat list \<Rightarrow> jsnum" where
  "Math_max ns = fold js_max ns NegInfinity"

fun js_less :: "nat \<Rightarrow> jsnum \<Rightarrow> bool" where
  "js_less n NegInfinity = False"
| "js_less n (Num k) = (n < k)"

text \<open>\<open>r.slice(0, c)\<close>: an end of \<open>-Infinity\<close> is clamped to 0.\<close>

fun slice0 :: "'a list \<Rightarrow> jsnum \<Rightarrow> 'a list" where
  "slice0 r NegInfinity = []"
| "slice0 r (Num k) = take k r"

text \<open>\<open>r[j] || ''\<close>: a missing cell reads as \<open>undefined\<close>, which is falsy.\<close>

definition cell :: "string list \<Rightarrow> nat \<Rightarrow> string" where
  "cell r j = (if j < length r then r ! j else [])"

text \<open>\<open>norm[i]\<close> followed by a property access, which throws on \<open>undefined\<close>.\<close>

definition row_at :: "string list list \<Rightarrow> nat \<Rightarrow> js_error + string list" where
  "row_at norm i = (if i < length norm then Inr (norm ! i) else Inl TypeError)"

text \<open>
  \<open>String.prototype.toLowerCase\<close> on the code units 0 to 255: the letters A to Z and the
  capital letters of the Latin-1 block (0xC0 to 0xDE without the multiplication sign 0xD7)
  move up by 32, every other character stays.
\<close>

definition toLowerCase_char :: "char \<Rightarrow> char" where
  "toLowerCase_char c =
     (let n = (of_char c :: nat)
      in if (65 \<le> n \<and> n \<le> 90) \<or> (192 \<le> n \<and> n \<le> 222 \<and> n \<noteq> 215)
         then char_of (n + 32) else c)"

definition toLowerCase :: "string \<Rightarrow> string" where
  "toLowerCase s = map toLowerCase_char s"

text \<open>\<open>s.includes(sub)\<close>: \<open>sub\<close> occurs in \<open>s\<close> as a contiguous substring.\<close>

fun str_includes :: "string \<Rightarrow> string \<Rightarrow> bool" where
  "str_includes [] sub = (sub = [])"
| "str_includes (c # cs) sub = (take (length sub) (c # cs) = sub \<or> str_includes cs sub)"

text \<open>The decimal digits of a number, as the template literal \<open>`${n}`\<close> prints them.\<close>

definition digit_char :: "nat \<Rightarrow> char" where
  "digit_char d = char_of (48 + d)"

function decimal :: "nat \<Rightarrow> string" where
  "decimal n = (if n < 10 then [digit_char n] else decimal (n div 10) @ [digit_char (n mod 10)])"
  by pat_completeness auto
termination
  by (relation "measure id") auto

subsection \<open>Table normalization (\<open>scrape\<close>, lines 157 to 196)\<close>

definition colCount :: "string list list \<Rightarrow> jsnum" where
  "colCount matrix = Math_max (map length matrix)"

text \<open>\<open>while (copy.length < colCount) copy.push('')\<close>\<close>

function pad_loop :: "jsnum \<Rightarrow> string list \<Rightarrow> string list" where
  "pad_loop c copy = (if js_less (length copy) c then pad_loop c (copy @ [[]]) else copy)"
  by pat_completeness auto
termination
  by (relation "measure (\<lambda>(c, copy). case c of NegInfinity \<Rightarrow> 0 | Num k \<Rightarrow> k - length copy)")
     (auto split: jsnum.splits)

definition norm_of :: "string list list \<Rightarrow> string list list" where
  "norm_of matrix = map (\<lambda>r. pad_loop (colCount matrix) (slice0 r (colCount matrix))) matrix"

text \<open>The special case of the first row in the two-column layout (lines 170 to 177).\<close>

definition firstRow :: "string list list \<Rightarrow> string list" where
  "firstRow norm = (case norm of [] \<Rightarrow> [] | r # _ \<Rightarrow> r)"

definition leftTop :: "string list list \<Rightarrow> string" where
  "leftTop norm = cell (firstRow norm) 0"

definition rightTop :: "string list list \<Rightarrow> string" where
  "rightTop norm = toLowerCase (cell (firstRow norm) 1)"

definition call_number_rows :: "string list list \<Rightarrow> CourseRow list" where
  "call_number_rows norm =
     (if str_includes (rightTop norm) ''call number'' \<and> leftTop norm \<noteq> []
      then [[(''Call Number'', leftTop norm)]] else [])"

text \<open>
  The loop of lines 180 to 186. The source names the cell at index 1 \<open>value\<close> and the cell
  at index 0 \<open>label\<close>, and the record it pushes is \<open>{ [label]: value }\<close>.
\<close>

function label_value_loop ::
  "string list list \<Rightarrow> nat \<Rightarrow> CourseRow list \<Rightarrow> js_error + CourseRow list" where
  "label_value_loop norm i rows =
     (if i < length norm then
        (case row_at norm i of
           Inl e \<Rightarrow> Inl e
         | Inr r \<Rightarrow>
             (let value = cell r 1; label = cell r 0
              in label_value_loop norm (i + 1)
                   (if label \<noteq> [] then rows @ [[(label, value)]] else rows)))
      else Inr rows)"
  by pat_completeness auto
termination
  by (relation "measure (\<lambda>(norm, i, rows). length norm - i)") auto

text \<open>
  \<open>obj[h] = v\<close> on an object created by \<open>{}\<close>: the key is added, or its value replaced in
  place. The key \<open>__proto__\<close> is the accessor inherited from \<open>Object.prototype\<close>, whose
  setter ignores a string, so that assignment adds no key.
\<close>

definition obj_set :: "string \<Rightarrow> string \<Rightarrow> CourseRow \<Rightarrow> CourseRow" where
  "obj_set h v obj = (if h = ''__proto__'' then obj else AList.update h v obj)"

text \<open>\<open>norm[0].map((h, idx) => h || `col_${idx + 1}`)\<close>\<close>

definition header_name :: "nat \<times> string \<Rightarrow> string" where
  "header_name p = (case p of (idx, h) \<Rightarrow> if h \<noteq> [] then h else ''col_'' @ decimal (idx + 1))"

definition headers_of :: "string list \<Rightarrow> string list" where
  "headers_of row0 = map header_name (enumerate 0 row0)"

text \<open>\<open>headers.forEach((h, idx) => (obj[h] = r[idx] || ''))\<close> on \<open>obj = {}\<close>\<close>

definition row_object :: "string list \<Rightarrow> string list \<Rightarrow> CourseRow" where
  "row_object headers r = fold (\<lambda>(idx, h) obj. obj_set h (cell r idx) obj) (enumerate 0 headers) []"

function header_loop ::
  "string list list \<Rightarrow> string list \<Rightarrow> nat \<Rightarrow> CourseRow list \<Rightarrow> js_error + CourseRow list" where
  "header_loop norm headers i rows =
     (if i < length norm then
        (case row_at norm i of
           Inl e \<Rightarrow> Inl e
         | Inr r \<Rightarrow> header_loop norm headers (i + 1) (rows @ [row_object headers r]))
      else Inr rows)"
  by pat_completeness auto
termination
  by (relation "measure (\<lambda>(norm, headers, i, rows). length norm - i)") auto

text \<open>
  The value of \<open>rows\<close> after line 196, for the cell matrix of the page's first table.
  \<open>Inl\<close> stands for an exception thrown on the way.
\<close>

definition table_rows :: "string list list \<Rightarrow> js_error + CourseRow list" where
  "table_rows matrix =
     (let colCount = colCount matrix;
          norm = norm_of matrix
      in if colCount = Num 2 then label_value_loop norm 1 (call_number_rows norm)
         else if length norm \<ge> 2 then
           (case row_at norm 0 of
              Inl e \<Rightarrow> Inl e
            | Inr row0 \<Rightarrow> header_loop norm (headers_of row0) 1 [])
         else Inr [])"

text \<open>A rectangular matrix with \<open>n\<close> columns: at least one row, every row of \<open>n\<close> cells.\<close>

definition rectangular :: "nat \<Rightarrow> string list list \<Rightarrow> bool" where
  "rectangular n matrix = (matrix \<noteq> [] \<and> list_all (\<lambda>r. length r = n) matrix)"

subsection \<open>Link discovery (\<open>discoverCourseLinks\<close>, lines 31 to 90)\<close>

text \<open>
  What \<open>grab\<close> reads of a browsing context (a page or a frame) at the moment of its
  evaluation: \<open>location.origin\<close>, the \<open>href\<close> attributes of the elements \<open>a[href]\<close> in
  document order, and whether \<open>ctx.evaluate\<close> rejects (a detached or navigating frame).
\<close>

record ctx =
  origin :: string
  anchors :: "string list"
  evaluate_fails :: bool

text \<open>
  The URL parser belongs to the browser, so it is a parameter of the model:
  \<open>new_URL href base\<close> is \<open>new URL(href, base).toString()\<close>, and \<open>None\<close> when the
  constructor throws.
\<close>

type_synonym url_parser = "string \<Rightarrow> string \<Rightarrow> string option"

text \<open>The filter of line 38.\<close>

definition matches :: "string \<Rightarrow> string \<Rightarrow> bool" where
  "matches tCode href =
     (str_includes href ''/subj/COMS/'' \<and> str_includes href (''-'' @ tCode @ ''-''))"

text \<open>\<open>s.split('#')[0]\<close>: the characters before the first \<open>#\<close>.\<close>

definition split_hash_first :: "string \<Rightarrow> string" where
  "split_hash_first s = takeWhile (\<lambda>c. c \<noteq> CHR ''#'') s"

text \<open>The function mapped over the hrefs in lines 41 to 47; \<open>catch\<close> returns \<open>''\<close>.\<close>

definition normalize_href :: "url_parser \<Rightarrow> string \<Rightarrow> string \<Rightarrow> string" where
  "normalize_href new_URL base href =
     (case new_URL href base of None \<Rightarrow> [] | Some u \<Rightarrow> split_hash_first u)"

text \<open>
  \<open>Array.from(new Set(xs))\<close>: a \<open>Set\<close> keeps its elements in the order of their first
  insertion.
\<close>

definition Set_add :: "'a \<Rightarrow> 'a list \<Rightarrow> 'a list" where
  "Set_add x s = (if x \<in> set s then s else s @ [x])"

definition Array_from_Set :: "'a list \<Rightarrow> 'a list" where
  "Array_from_Set xs = fold Set_add xs []"

text \<open>\<open>grab\<close> (lines 33 to 52); \<open>.filter(Boolean)\<close> drops the empty strings.\<close>

definition grab :: "url_parser \<Rightarrow> string \<Rightarrow> ctx \<Rightarrow> js_error + string list" where
  "grab new_URL tCode c =
     (if evaluate_fails c then Inl EvaluateError
      else
        (let urls = filter (matches tCode) (anchors c)
         in Inr (Array_from_Set
                   (filter (\<lambda>u. u \<noteq> []) (map (normalize_href new_URL (origin c)) urls)))))"

text \<open>\<open>p.catch(() => d)\<close>, and \<open>try { return await p } catch { return d }\<close>.\<close>

definition catch :: "js_error + 'a \<Rightarrow> 'a \<Rightarrow> 'a" where
  "catch p d = (case p of Inl e \<Rightarrow> d | Inr v \<Rightarrow> v)"

text \<open>\<open>Promise.all\<close> rejects as soon as one of its promises rejects.\<close>

fun Promise_all :: "(js_error + 'a) list \<Rightarrow> js_error + 'a list" where
  "Promise_all [] = Inr []"
| "Promise_all (p # ps) =
     (case p of
        Inl e \<Rightarrow> Inl e
      | Inr v \<Rightarrow> (case Promise_all ps of Inl e \<Rightarrow> Inl e | Inr vs \<Rightarrow> Inr (v # vs)))"

text \<open>
  \<open>discoverCourseLinks\<close>. The argument \<open>page\<close> is the top document as the first \<open>grab\<close>
  finds it (line 54); \<open>frames\<close> is the value of \<open>page.frames()\<close> in line 70, read after
  the waits and the change of the hash, each frame as its own \<open>grab\<close> finds it. The waits
  and the hash change of lines 57 to 67 all end in \<open>.catch(() => {})\<close> and do not reach
  the result otherwise.
\<close>

definition discoverCourseLinks ::
  "url_parser \<Rightarrow> ctx \<Rightarrow> ctx list \<Rightarrow> string \<Rightarrow> js_error + string list" where
  "discoverCourseLinks new_URL page frames termCode =
     (let fromMain = catch (grab new_URL termCode page) []
      in case Promise_all (map (\<lambda>f. Inr (catch (grab new_URL termCode f) [])) frames) of
           Inl e \<Rightarrow> Inl e
         | Inr fromFramesArrays \<Rightarrow>
             (let fromFrames = concat fromFramesArrays
              in Inr (Array_from_Set (fromMain @ fromFrames))))"

text \<open>
  A URL parser for the concrete examples below. It appends a href that starts with a slash
  to the base and rejects every other href. On the hrefs of the examples (plain paths with
  an optional fragment, and \<open>http://[\<close> with its unclosed bracket) this is what the
  browser's parser returns for a base that is an origin.
\<close>

definition sample_URL :: url_parser where
  "sample_URL href base =
     (case href of
        c # cs \<Rightarrow> if c = CHR ''/'' then Some (base @ href) else None
      | [] \<Rightarrow> None)"

section \<open>Properties of the table normalization\<close>

subsection \<open>Substrings\<close>

text \<open>\<open>str_includes\<close> is the relation of contiguous substrings.\<close>

lemma take_length_eq_iff: "take (length sub) s = sub \<longleftrightarrow> (\<exists>q. s = sub @ q)"
proof
  assume "take (length sub) s = sub"
  then have "s = sub @ drop (length sub) s" by (metis append_take_drop_id)
  then show "\<exists>q. s = sub @ q" ..
next
  assume "\<exists>q. s = sub @ q"
  then show "take (length sub) s = sub" by auto
qed

lemma str_includes_iff: "str_includes s sub \<longleftrightarrow> (\<exists>p q. s = p @ sub @ q)"
proof (induction s)
  case Nil
  then show ?case by auto
next
  case (Cons c cs)
  have "(\<exists>p q. c # cs = p @ sub @ q) \<longleftrightarrow> (\<exists>q. c # cs = sub @ q) \<or> (\<exists>p q. cs = p @ sub @ q)"
  proof
    assume "\<exists>p q. c # cs = p @ sub @ q"
    then obtain p q where e: "c # cs = p @ sub @ q" by blast
    show "(\<exists>q. c # cs = sub @ q) \<or> (\<exists>p q. cs = p @ sub @ q)"
    proof (cases p)
      case Nil
      with e show ?thesis by auto
    next
      case (Cons a p')
      with e have "cs = p' @ sub @ q" by simp
      then show ?thesis by blast
    qed
  next
    assume "(\<exists>q. c # cs = sub @ q) \<or> (\<exists>p q. cs = p @ sub @ q)"
    then show "\<exists>p q. c # cs = p @ sub @ q"
    proof
      assume "\<exists>q. c # cs = sub @ q"
      then obtain q where "c # cs = [] @ sub @ q" by auto
      then show ?thesis by blast
    next
      assume "\<exists>p q. cs = p @ sub @ q"
      then obtain p q where "c # cs = (c # p) @ sub @ q" by auto
      then show ?thesis by blast
    qed
  qed
  with Cons show ?case by (simp only: str_includes.simps take_length_eq_iff)
qed

subsection \<open>The loops in closed form\<close>

declare label_value_loop.simps [simp del] header_loop.simps [simp del] pad_loop.simps [simp del]
  decimal.simps [simp del]

lemma fold_js_max_Num: "fold js_max ns (Num k) = Num (fold max ns k)"
  by (induction ns arbitrary: k) (simp_all add: max.commute)

lemma Math_max_Nil: "Math_max [] = NegInfinity"
  by (simp add: Math_max_def)

lemma Math_max_Cons: "Math_max (n # ns) = Num (fold max ns n)"
  by (simp add: Math_max_def fold_js_max_Num)

lemma fold_max_const: "\<forall>x\<in>set ns. x = n \<Longrightarrow> fold max ns n = (n::nat)"
  by (induction ns) simp_all

lemma colCount_rectangular: "rectangular n matrix \<Longrightarrow> colCount matrix = Num n"
  by (cases matrix) (auto simp: rectangular_def colCount_def Math_max_Cons list_all_iff intro: fold_max_const)

lemma colCount_Nil: "colCount [] = NegInfinity"
  by (simp add: colCount_def Math_max_Nil)

lemma colCount_NegInfinity: "colCount matrix = NegInfinity \<longleftrightarrow> matrix = []"
  by (cases matrix) (simp_all add: colCount_def Math_max_Nil Math_max_Cons)

lemma pad_loop_Num: "pad_loop (Num k) copy = copy @ replicate (k - length copy) []"
proof (induction "Num k" copy rule: pad_loop.induct)
  case (1 copy)
  show ?case
  proof (cases "length copy < k")
    case True
    then have "k - length copy = Suc (k - Suc (length copy))" by simp
    with True 1 show ?thesis
      by (subst pad_loop.simps) (simp add: replicate_app_Cons_same)
  next
    case False
    then show ?thesis by (subst pad_loop.simps) simp
  qed
qed

lemma length_norm_of: "length (norm_of matrix) = length matrix"
  by (simp add: norm_of_def)

lemma norm_of_rectangular:
  assumes "rectangular n matrix"
  shows "norm_of matrix = matrix"
proof -
  have c: "colCount matrix = Num n" using assms by (rule colCount_rectangular)
  have "\<And>r. r \<in> set matrix \<Longrightarrow> pad_loop (Num n) (slice0 r (Num n)) = r"
    using assms by (simp add: pad_loop_Num rectangular_def list_all_iff)
  then show ?thesis by (simp add: norm_of_def c map_idI)
qed

lemma label_value_loop_eq:
  "label_value_loop norm i rows =
     Inr (rows @ map (\<lambda>r. [(cell r 0, cell r 1)]) (filter (\<lambda>r. cell r 0 \<noteq> []) (drop i norm)))"
proof (induction norm i rows rule: label_value_loop.induct)
  case (1 norm i rows)
  show ?case
  proof (cases "i < length norm")
    case True
    then have d: "drop i norm = norm ! i # drop (i + 1) norm"
      by (simp add: Cons_nth_drop_Suc)
    from True have r: "row_at norm i = Inr (norm ! i)" by (simp add: row_at_def)
    define rows' where "rows' = (if cell (norm ! i) 0 \<noteq> [] then rows @ [[(cell (norm ! i) 0, cell (norm ! i) 1)]] else rows)"
    have step: "label_value_loop norm i rows = label_value_loop norm (i + 1) rows'"
      by (subst label_value_loop.simps) (simp add: True r Let_def rows'_def)
    have "label_value_loop norm (i + 1) rows' =
       Inr (rows' @ map (\<lambda>r. [(cell r 0, cell r 1)]) (filter (\<lambda>r. cell r 0 \<noteq> []) (drop (i + 1) norm)))"
      using 1[OF True r refl refl] by (simp add: rows'_def)
    with step show ?thesis by (simp add: d rows'_def)
  next
    case False
    then show ?thesis by (subst label_value_loop.simps) simp
  qed
qed

lemma header_loop_eq:
  "header_loop norm headers i rows = Inr (rows @ map (row_object headers) (drop i norm))"
proof (induction norm headers i rows rule: header_loop.induct)
  case (1 norm headers i rows)
  show ?case
  proof (cases "i < length norm")
    case True
    then have d: "drop i norm = norm ! i # drop (i + 1) norm"
      by (simp add: Cons_nth_drop_Suc)
    from True have r: "row_at norm i = Inr (norm ! i)" by (simp add: row_at_def)
    have step: "header_loop norm headers i rows =
        header_loop norm headers (i + 1) (rows @ [row_object headers (norm ! i)])"
      by (subst header_loop.simps) (simp add: True r)
    with 1[OF True r] show ?thesis by (simp add: d)
  next
    case False
    then show ?thesis by (subst header_loop.simps) simp
  qed
qed

lemma table_rows_two_columns:
  "colCount matrix = Num 2 \<Longrightarrow>
   table_rows matrix =
     Inr (call_number_rows (norm_of matrix) @
          map (\<lambda>r. [(cell r 0, cell r 1)])
            (filter (\<lambda>r. cell r 0 \<noteq> []) (drop 1 (norm_of matrix))))"
  by (simp add: table_rows_def Let_def label_value_loop_eq)

lemma table_rows_header_table:
  "colCount matrix \<noteq> Num 2 \<Longrightarrow> 2 \<le> length matrix \<Longrightarrow>
   table_rows matrix =
     Inr (map (row_object (headers_of (norm_of matrix ! 0))) (drop 1 (norm_of matrix)))"
  by (cases matrix) (simp_all add: table_rows_def Let_def header_loop_eq length_norm_of row_at_def)

lemma table_rows_short:
  "colCount matrix \<noteq> Num 2 \<Longrightarrow> length matrix < 2 \<Longrightarrow> table_rows matrix = Inr []"
  by (simp add: table_rows_def Let_def length_norm_of)

lemma keys_obj_set: "fst ` set (obj_set h v obj) = fst ` set obj \<union> ({h} - {''__proto__''})"
  by (auto simp: obj_set_def AList.dom_update)

lemma distinct_obj_set: "distinct (map fst obj) \<Longrightarrow> distinct (map fst (obj_set h v obj))"
  by (simp add: obj_set_def AList.distinct_update)

lemma map_of_obj_set:
  "map_of (obj_set h v obj) k = (if k = h \<and> h \<noteq> ''__proto__'' then Some v else map_of obj k)"
  by (simp add: obj_set_def AList.update_conv')

lemma keys_fold_obj_set:
  "fst ` set (fold (\<lambda>(idx, h) obj. obj_set h (cell r idx) obj) (enumerate k hs) obj) =
     fst ` set obj \<union> (set hs - {''__proto__''})"
  by (induction hs arbitrary: k obj) (auto simp: keys_obj_set)

lemma distinct_fold_obj_set:
  "distinct (map fst obj) \<Longrightarrow>
   distinct (map fst (fold (\<lambda>(idx, h) obj. obj_set h (cell r idx) obj) (enumerate k hs) obj))"
  by (induction hs arbitrary: k obj) (simp_all add: distinct_obj_set)

lemma map_of_fold_obj_set_other:
  "h \<notin> set hs \<Longrightarrow>
   map_of (fold (\<lambda>(idx, h) obj. obj_set h (cell r idx) obj) (enumerate k hs) obj) h = map_of obj h"
  by (induction hs arbitrary: k obj) (auto simp: map_of_obj_set)

lemma map_of_fold_obj_set_last:
  "idx < length hs \<Longrightarrow> hs ! idx \<noteq> ''__proto__'' \<Longrightarrow>
   (\<forall>j. idx < j \<and> j < length hs \<longrightarrow> hs ! j \<noteq> hs ! idx) \<Longrightarrow>
   map_of (fold (\<lambda>(idx, h) obj. obj_set h (cell r idx) obj) (enumerate k hs) obj) (hs ! idx)
     = Some (cell r (k + idx))"
proof (induction hs arbitrary: k obj idx)
  case Nil
  then show ?case by simp
next
  case (Cons x xs)
  show ?case
  proof (cases idx)
    case 0
    have "x \<notin> set xs"
    proof
      assume "x \<in> set xs"
      then obtain j where "j < length xs" "xs ! j = x" by (auto simp: in_set_conv_nth)
      with Cons.prems(3) 0 show False by (auto dest: spec[of _ "Suc j"])
    qed
    with 0 Cons.prems(2) show ?thesis
      by (simp add: map_of_fold_obj_set_other map_of_obj_set)
  next
    case (Suc i)
    have "\<forall>j. i < j \<and> j < length xs \<longrightarrow> xs ! j \<noteq> xs ! i"
      using Cons.prems(3) Suc by (auto dest: spec[of _ "Suc j" for j])
    with Cons.IH[of i "Suc k"] Cons.prems Suc show ?thesis by simp
  qed
qed

lemma keys_row_object: "fst ` set (row_object headers r) = set headers - {''__proto__''}"
  by (simp add: row_object_def keys_fold_obj_set)

lemma distinct_row_object: "distinct (map fst (row_object headers r))"
  by (simp add: row_object_def distinct_fold_obj_set)

lemma map_of_row_object:
  "idx < length headers \<Longrightarrow> headers ! idx \<noteq> ''__proto__'' \<Longrightarrow>
   (\<forall>j. idx < j \<and> j < length headers \<longrightarrow> headers ! j \<noteq> headers ! idx) \<Longrightarrow>
   map_of (row_object headers r) (headers ! idx) = Some (cell r idx)"
  using map_of_fold_obj_set_last[of idx headers r 0 "[]"] by (simp add: row_object_def)

lemma length_headers_of: "length (headers_of row0) = length row0"
  by (simp add: headers_of_def)

lemma nth_headers_of:
  "idx < length row0 \<Longrightarrow>
   headers_of row0 ! idx =
     (if row0 ! idx \<noteq> [] then row0 ! idx else ''col_'' @ decimal (idx + 1))"
  by (simp add: headers_of_def header_name_def nth_enumerate_eq)

lemma headers_of_nonempty: "[] \<notin> set (headers_of row0)"
  by (auto simp: headers_of_def header_name_def split: if_splits)

subsection \<open>The claims about the table normalization\<close>

lemma rectangular_cell: "rectangular n matrix \<Longrightarrow> r \<in> set matrix \<Longrightarrow> j < n \<Longrightarrow> cell r j = r ! j"
  by (simp add: rectangular_def list_all_iff cell_def)

lemma table_rows_total: "\<exists>rows. table_rows matrix = Inr rows"
proof (cases "colCount matrix = Num 2")
  case True
  then show ?thesis by (simp add: table_rows_two_columns)
next
  case False
  then show ?thesis
    by (cases "2 \<le> length matrix") (simp_all add: table_rows_header_table table_rows_short)
qed

text \<open>
  Claim C1: in a rectangular two-column matrix, a row of index at least 1 is emitted as one
  record whose key is the row's right cell (the label) and whose value is its left cell.
  The comment of line 168 says the same (the right column is the label, the left one the
  value) and the first row is read that way, but the loop of lines 180 to 186 takes the
  label from index 0 and the value from index 1. On the second example of the
  specification the second record comes out with key and value exchanged: the code
  yields \<open>{"TR 10:10-11:25": "Times"}\<close> where the claim has
  \<open>{"Times": "TR 10:10-11:25"}\<close>.
\<close>

theorem C1_label_taken_from_left_cell:
  "table_rows [[''98765'', ''Call Number''], [''TR 10:10-11:25'', ''Times'']] =
     Inr [[(''Call Number'', ''98765'')], [(''TR 10:10-11:25'', ''Times'')]] \<and>
   table_rows [[''98765'', ''Call Number''], [''TR 10:10-11:25'', ''Times'']] \<noteq>
     Inr [[(''Call Number'', ''98765'')], [(''Times'', ''TR 10:10-11:25'')]]"
  by code_simp

text \<open>
  Claim C2, as amended: for every rectangular matrix with fewer than two rows that has
  exactly one column, or three or more columns, no extraction takes place and the result
  is the empty sequence of records. (The second branch of the layout selection tests the
  number of rows only, so it also receives the matrices of one column.)
\<close>

theorem C2_no_extraction_below_two_rows:
  assumes "rectangular n matrix" and "n = 1 \<or> 3 \<le> n" and "length matrix < 2"
  shows "table_rows matrix = Inr []"
proof -
  have "colCount matrix = Num n" using assms(1) by (rule colCount_rectangular)
  with assms(2) have "colCount matrix \<noteq> Num 2" by auto
  then show ?thesis using assms(3) by (rule table_rows_short)
qed

theorem C2_no_extraction_below_two_rows_witness:
  "rectangular 1 [[''Section'']] \<and> table_rows [[''Section'']] = Inr [] \<and>
   rectangular 3 [[''Day'', ''Time'', ''Room'']] \<and> table_rows [[''Day'', ''Time'', ''Room'']] = Inr []"
  using C2_no_extraction_below_two_rows[of 1 "[[''Section'']]"]
        C2_no_extraction_below_two_rows[of 3 "[[''Day'', ''Time'', ''Room'']]"]
  by (simp add: rectangular_def)

text \<open>
  The claim C2 as it is stated fails for a matrix of one column and two rows: the first
  row is taken as the header and the second row becomes a record.
\<close>

theorem C2_one_column_counterexample:
  "rectangular 1 [[''Section''], [''001'']] \<and>
   table_rows [[''Section''], [''001'']] = Inr [[(''Section'', ''001'')]] \<and>
   table_rows [[''Section''], [''001'']] \<noteq> Inr []"
  by code_simp

text \<open>
  Claim C3, as amended: the normalization never raises an error; for a matrix with zero
  rows the result is the empty sequence of records; for a matrix whose column count is
  zero the result holds one record without any key for each row after the first, so it is
  the empty sequence when the matrix has fewer than two rows.
\<close>

theorem C3_empty_matrix_no_error:
  "(\<exists>rows. table_rows matrix = Inr rows) \<and>
   (matrix = [] \<longrightarrow> table_rows matrix = Inr []) \<and>
   (colCount matrix = Num 0 \<longrightarrow> table_rows matrix = Inr (replicate (length matrix - 1) []))"
proof (intro conjI impI)
  show "\<exists>rows. table_rows matrix = Inr rows" by (rule table_rows_total)
next
  assume "matrix = []"
  then show "table_rows matrix = Inr []"
    by (simp add: table_rows_short colCount_Nil)
next
  assume c: "colCount matrix = Num 0"
  have n: "norm_of matrix = replicate (length matrix) []"
    by (simp add: norm_of_def c pad_loop_Num map_replicate_const)
  show "table_rows matrix = Inr (replicate (length matrix - 1) [])"
  proof (cases "2 \<le> length matrix")
    case True
    from True have "0 < length matrix" by (cases matrix) simp_all
    then have "norm_of matrix ! 0 = []" unfolding n by (rule nth_replicate)
    then have "headers_of (norm_of matrix ! 0) = []" by (simp add: headers_of_def)
    then show ?thesis
      using True c by (simp add: table_rows_header_table n row_object_def map_replicate_const)
  next
    case False
    then have "length matrix - 1 = 0" by simp
    with False c show ?thesis by (simp add: table_rows_short)
  qed
qed

theorem C3_empty_matrix_no_error_witness:
  "table_rows [] = Inr [] \<and> colCount [[], [], []] = Num 0 \<and> table_rows [[], [], []] = Inr [[], []]"
  using C3_empty_matrix_no_error[of "[]"] C3_empty_matrix_no_error[of "[[], [], []]"]
  by (simp add: colCount_def Math_max_def)

text \<open>
  The claim C3 as it is stated fails for two rows without cells: the column count is zero
  and the result is one record without keys, not the empty sequence.
\<close>

theorem C3_zero_columns_counterexample:
  "colCount [[], []] = Num 0 \<and> table_rows [[], []] = Inr [[]] \<and> table_rows [[], []] \<noteq> Inr []"
  by code_simp

text \<open>
  Claim C4: for every rectangular two-column matrix the record
  \<open>{"Call Number": <left cell of row 0>}\<close> is emitted, ahead of all other records, if
  and only if the lowercased right cell of row 0 contains \<open>call number\<close> and the left
  cell of row 0 is not empty. The result is this record, or nothing, followed by the
  records of the rows after the first, which do not depend on row 0; with an empty left
  cell, row 0 emits no record.
\<close>

theorem C4_call_number_record_first:
  assumes "rectangular 2 matrix"
  shows "table_rows matrix =
           Inr ((if str_includes (toLowerCase (matrix ! 0 ! 1)) ''call number'' \<and> matrix ! 0 ! 0 \<noteq> []
                 then [[(''Call Number'', matrix ! 0 ! 0)]] else [])
                @ map (\<lambda>r. [(r ! 0, r ! 1)]) (filter (\<lambda>r. r ! 0 \<noteq> []) (tl matrix)))"
proof -
  have c: "colCount matrix = Num 2" using assms by (rule colCount_rectangular)
  have n: "norm_of matrix = matrix" using assms by (rule norm_of_rectangular)
  obtain r0 rs where m: "matrix = r0 # rs" using assms by (cases matrix) (auto simp: rectangular_def)
  have r0: "length r0 = 2" using assms m by (simp add: rectangular_def)
  have top: "call_number_rows matrix =
      (if str_includes (toLowerCase (matrix ! 0 ! 1)) ''call number'' \<and> matrix ! 0 ! 0 \<noteq> []
       then [[(''Call Number'', matrix ! 0 ! 0)]] else [])"
    by (simp add: call_number_rows_def rightTop_def leftTop_def firstRow_def m cell_def r0)
  have rs: "\<And>r. r \<in> set rs \<Longrightarrow> cell r 0 = r ! 0 \<and> cell r 1 = r ! 1"
    using assms m by (simp add: rectangular_cell)
  have f: "filter (\<lambda>r. cell r 0 \<noteq> []) rs = filter (\<lambda>r. r ! 0 \<noteq> []) rs"
    by (rule filter_cong) (simp_all add: rs)
  have "map (\<lambda>r. [(cell r 0, cell r 1)]) (filter (\<lambda>r. r ! 0 \<noteq> []) rs)
      = map (\<lambda>r. [(r ! 0, r ! 1)]) (filter (\<lambda>r. r ! 0 \<noteq> []) rs)"
    by (rule map_cong) (use rs in auto)
  with f have rest: "map (\<lambda>r. [(cell r 0, cell r 1)]) (filter (\<lambda>r. cell r 0 \<noteq> []) (drop 1 matrix))
      = map (\<lambda>r. [(r ! 0, r ! 1)]) (filter (\<lambda>r. r ! 0 \<noteq> []) (tl matrix))"
    by (simp add: m)
  show ?thesis
    unfolding table_rows_two_columns[OF c] n top rest ..
qed

theorem C4_call_number_record_first_witness:
  "rectangular 2 [[''98765'', ''CALL NUMBER''], [''4'', ''Points'']] \<and>
   table_rows [[''98765'', ''CALL NUMBER''], [''4'', ''Points'']] =
     Inr [[(''Call Number'', ''98765'')], [(''4'', ''Points'')]] \<and>
   rectangular 2 [['''', ''Call Number''], [''4'', ''Points'']] \<and>
   table_rows [['''', ''Call Number''], [''4'', ''Points'']] = Inr [[(''4'', ''Points'')]]"
proof -
  have r1: "rectangular 2 [[''98765'', ''CALL NUMBER''], [''4'', ''Points'']]"
    by (simp add: rectangular_def)
  have r2: "rectangular 2 [['''', ''Call Number''], [''4'', ''Points'']]"
    by (simp add: rectangular_def)
  have low: "toLowerCase ''CALL NUMBER'' = ''call number''"
    by code_simp
  show ?thesis
    using r1 r2 C4_call_number_record_first[OF r1] C4_call_number_record_first[OF r2]
    by (simp add: low)
qed

lemma drop_one_nth: "drop 1 xs = map ((!) xs) [1..<length xs]"
proof -
  have "drop 1 xs = drop 1 (map ((!) xs) [0..<length xs])" by (simp only: map_nth)
  also have "\<dots> = map ((!) xs) (drop 1 [0..<length xs])" by (simp only: drop_map)
  finally show ?thesis by simp
qed

lemma table_rows_rectangular_two:
  assumes "rectangular 2 matrix"
  shows "table_rows matrix =
           Inr (call_number_rows matrix @
                map (\<lambda>r. [(r ! 0, r ! 1)]) (filter (\<lambda>r. r ! 0 \<noteq> []) (drop 1 matrix)))"
proof -
  have c: "colCount matrix = Num 2" using assms by (rule colCount_rectangular)
  have n: "norm_of matrix = matrix" using assms by (rule norm_of_rectangular)
  have rs: "\<And>r. r \<in> set (drop 1 matrix) \<Longrightarrow> cell r 0 = r ! 0 \<and> cell r 1 = r ! 1"
    using assms by (auto simp: rectangular_cell dest: in_set_dropD)
  have f: "filter (\<lambda>r. cell r 0 \<noteq> []) (drop 1 matrix) = filter (\<lambda>r. r ! 0 \<noteq> []) (drop 1 matrix)"
    by (rule filter_cong) (simp_all add: rs)
  have "map (\<lambda>r. [(cell r 0, cell r 1)]) (filter (\<lambda>r. r ! 0 \<noteq> []) (drop 1 matrix))
      = map (\<lambda>r. [(r ! 0, r ! 1)]) (filter (\<lambda>r. r ! 0 \<noteq> []) (drop 1 matrix))"
    by (rule map_cong) (use rs in auto)
  with f show ?thesis
    unfolding table_rows_two_columns[OF c] n by simp
qed

text \<open>
  Claim C5, as amended: for every rectangular matrix with at least three columns and at
  least two rows, row 0 supplies the field names, an empty header cell being replaced by
  the placeholder \<open>col_N\<close> with \<open>N\<close> the column's position counted from 1, and each
  following row becomes one record. The keys of the record are the field names other than
  \<open>__proto__\<close>, and such a field name is mapped to the row's cell in the last column
  that carries this name; where the field names are pairwise different this is the cell
  at the same column index. The matrix \<open>[["Day","Time","Room"],["TR","10:10-11:25","301"]]\<close>
  yields \<open>[{"Day":"TR","Time":"10:10-11:25","Room":"301"}]\<close>.
\<close>

theorem C5_header_table_records:
  "(rectangular n matrix \<and> 3 \<le> n \<and> 2 \<le> length matrix \<longrightarrow>
      (\<exists>rows hs. table_rows matrix = Inr rows \<and> length rows = length matrix - 1 \<and>
         length hs = n \<and>
         (\<forall>idx<n. hs ! idx = (if matrix ! 0 ! idx \<noteq> [] then matrix ! 0 ! idx
                               else ''col_'' @ decimal (idx + 1))) \<and>
         (\<forall>i<length rows.
            fst ` set (rows ! i) = set hs - {''__proto__''} \<and>
            (\<forall>idx<n. hs ! idx \<noteq> ''__proto__'' \<and> (\<forall>j. idx < j \<and> j < n \<longrightarrow> hs ! j \<noteq> hs ! idx)
                \<longrightarrow> map_of (rows ! i) (hs ! idx) = Some (matrix ! (i + 1) ! idx))))) \<and>
   table_rows [[''Day'', ''Time'', ''Room''], [''TR'', ''10:10-11:25'', ''301'']] =
     Inr [[(''Day'', ''TR''), (''Time'', ''10:10-11:25''), (''Room'', ''301'')]]"
proof (intro conjI impI)
  assume a: "rectangular n matrix \<and> 3 \<le> n \<and> 2 \<le> length matrix"
  then have rect: "rectangular n matrix" and n3: "3 \<le> n" and len: "2 \<le> length matrix"
    by simp_all
  have c: "colCount matrix \<noteq> Num 2"
    using colCount_rectangular[OF rect] n3 by simp
  have nm: "norm_of matrix = matrix" using rect by (rule norm_of_rectangular)
  define hs where "hs = headers_of (matrix ! 0)"
  define rows where "rows = map (row_object hs) (drop 1 matrix)"
  have t: "table_rows matrix = Inr rows"
    using table_rows_header_table[OF c len] by (simp add: nm rows_def hs_def)
  have row0: "length (matrix ! 0) = n"
    using rect len by (cases matrix) (simp_all add: rectangular_def)
  have lhs: "length hs = n" by (simp add: hs_def length_headers_of row0)
  have names: "\<forall>idx<n. hs ! idx = (if matrix ! 0 ! idx \<noteq> [] then matrix ! 0 ! idx
                               else ''col_'' @ decimal (idx + 1))"
    by (simp add: hs_def nth_headers_of row0)
  have lrows: "length rows = length matrix - 1" by (simp add: rows_def)
  have recs: "\<forall>i<length rows.
            fst ` set (rows ! i) = set hs - {''__proto__''} \<and>
            (\<forall>idx<n. hs ! idx \<noteq> ''__proto__'' \<and> (\<forall>j. idx < j \<and> j < n \<longrightarrow> hs ! j \<noteq> hs ! idx)
                \<longrightarrow> map_of (rows ! i) (hs ! idx) = Some (matrix ! (i + 1) ! idx))"
  proof (intro allI impI conjI)
    fix i assume i: "i < length rows"
    then have ri: "rows ! i = row_object hs (matrix ! (i + 1))"
      by (simp add: rows_def add.commute)
    show "fst ` set (rows ! i) = set hs - {''__proto__''}"
      by (simp add: ri keys_row_object)
    fix idx
    assume idx: "idx < n"
      and last: "hs ! idx \<noteq> ''__proto__'' \<and> (\<forall>j. idx < j \<and> j < n \<longrightarrow> hs ! j \<noteq> hs ! idx)"
    from i have "matrix ! (i + 1) \<in> set matrix" by (simp add: lrows)
    then have "cell (matrix ! (i + 1)) idx = matrix ! (i + 1) ! idx"
      using rect idx by (simp add: rectangular_cell)
    with map_of_row_object[of idx hs "matrix ! (i + 1)"] idx last lhs
    show "map_of (rows ! i) (hs ! idx) = Some (matrix ! (i + 1) ! idx)"
      by (simp add: ri)
  qed
  from t lrows lhs names recs
  show "\<exists>rows hs. table_rows matrix = Inr rows \<and> length rows = length matrix - 1 \<and>
         length hs = n \<and>
         (\<forall>idx<n. hs ! idx = (if matrix ! 0 ! idx \<noteq> [] then matrix ! 0 ! idx
                               else ''col_'' @ decimal (idx + 1))) \<and>
         (\<forall>i<length rows.
            fst ` set (rows ! i) = set hs - {''__proto__''} \<and>
            (\<forall>idx<n. hs ! idx \<noteq> ''__proto__'' \<and> (\<forall>j. idx < j \<and> j < n \<longrightarrow> hs ! j \<noteq> hs ! idx)
                \<longrightarrow> map_of (rows ! i) (hs ! idx) = Some (matrix ! (i + 1) ! idx)))"
    by blast
next
  show "table_rows [[''Day'', ''Time'', ''Room''], [''TR'', ''10:10-11:25'', ''301'']] =
     Inr [[(''Day'', ''TR''), (''Time'', ''10:10-11:25''), (''Room'', ''301'')]]"
    by code_simp
qed

theorem C5_header_table_records_witness:
  "rectangular 3 [['''', ''Time'', ''Room''], [''TR'', ''10:10'', ''301'']] \<and>
   (\<exists>rows. table_rows [['''', ''Time'', ''Room''], [''TR'', ''10:10'', ''301'']] = Inr rows \<and>
      length rows = 1 \<and>
      fst ` set (rows ! 0) = {''col_1'', ''Time'', ''Room''} \<and>
      map_of (rows ! 0) ''col_1'' = Some ''TR'' \<and>
      map_of (rows ! 0) ''Time'' = Some ''10:10'' \<and>
      map_of (rows ! 0) ''Room'' = Some ''301'')"
proof -
  let ?M = "[['''', ''Time'', ''Room''], [''TR'', ''10:10'', ''301'']]"
  have r: "rectangular 3 ?M \<and> (3::nat) \<le> 3 \<and> 2 \<le> length ?M"
    by (simp add: rectangular_def)
  have d: "decimal (Suc 0) = [CHR 0x31]" by code_simp
  from C5_header_table_records[of 3 ?M] r
  obtain rows hs where t: "table_rows ?M = Inr rows" and l: "length rows = 1"
    and lh: "length hs = 3"
    and names: "\<forall>idx<3. hs ! idx = (if ?M ! 0 ! idx \<noteq> [] then ?M ! 0 ! idx
                               else ''col_'' @ decimal (idx + 1))"
    and recs: "\<forall>i<length rows.
            fst ` set (rows ! i) = set hs - {''__proto__''} \<and>
            (\<forall>idx<3. hs ! idx \<noteq> ''__proto__'' \<and> (\<forall>j. idx < j \<and> j < 3 \<longrightarrow> hs ! j \<noteq> hs ! idx)
                \<longrightarrow> map_of (rows ! i) (hs ! idx) = Some (?M ! (i + 1) ! idx))"
    by auto
  from lh obtain a b c where hs: "hs = [a, b, c]"
    by (auto simp: length_Suc_conv numeral_3_eq_3)
  from names have "hs ! 0 = ''col_1''" "hs ! 1 = ''Time''" "hs ! 2 = ''Room''"
    by (simp_all add: d)
  with hs have hs': "hs = [''col_1'', ''Time'', ''Room'']" by simp
  from recs l have k: "fst ` set (rows ! 0) = set hs - {''__proto__''}" by simp
  from recs l have m: "\<forall>idx<3. hs ! idx \<noteq> ''__proto__'' \<and> (\<forall>j. idx < j \<and> j < 3 \<longrightarrow> hs ! j \<noteq> hs ! idx)
                \<longrightarrow> map_of (rows ! 0) (hs ! idx) = Some (?M ! 1 ! idx)" by simp
  have last0: "\<forall>j. 0 < j \<and> j < 3 \<longrightarrow> hs ! j \<noteq> hs ! 0"
    by (auto simp: hs' less_Suc_eq numeral_3_eq_3)
  have last1: "\<forall>j. 1 < j \<and> j < 3 \<longrightarrow> hs ! j \<noteq> hs ! 1"
    by (auto simp: hs' less_Suc_eq numeral_3_eq_3)
  have last2: "\<forall>j. 2 < j \<and> j < 3 \<longrightarrow> hs ! j \<noteq> hs ! 2"
    by auto
  have m0: "map_of (rows ! 0) ''col_1'' = Some ''TR''"
    using m[rule_format, of 0] last0 by (simp add: hs')
  have m1: "map_of (rows ! 0) ''Time'' = Some ''10:10''"
    using m[rule_format, of 1] last1 by (simp add: hs')
  have m2: "map_of (rows ! 0) ''Room'' = Some ''301''"
    using m[rule_format, of 2] last2 by (simp add: hs')
  from k have k': "fst ` set (rows ! 0) = {''col_1'', ''Time'', ''Room''}"
    by (auto simp: hs')
  from r t l k' m0 m1 m2 show ?thesis by blast
qed

text \<open>
  The claim C5 as it is stated fails where two header cells are equal, and for the header
  cell \<open>__proto__\<close>: the record maps the name \<open>Day\<close> of column 0 to the cell of column 1,
  and it has no key \<open>__proto__\<close>.
\<close>

theorem C5_duplicate_header_counterexample:
  "rectangular 3 [[''Day'', ''Day'', ''__proto__''], [''M'', ''W'', ''301'']] \<and>
   headers_of [''Day'', ''Day'', ''__proto__''] = [''Day'', ''Day'', ''__proto__''] \<and>
   table_rows [[''Day'', ''Day'', ''__proto__''], [''M'', ''W'', ''301'']] = Inr [[(''Day'', ''W'')]] \<and>
   map_of [(''Day'', ''W'')] ''Day'' \<noteq> Some ''M'' \<and>
   map_of [(''Day'', ''W'')] ''__proto__'' \<noteq> Some ''301''"
  by code_simp

text \<open>
  Claim C6, as amended: for every matrix handled by the header-table branch (a column
  count other than 2, at least two rows), every key of every produced record is non-empty,
  occurs once in the record, and is one of the field names (a header cell of the
  normalized row 0, or its placeholder). Columns with equal field names share one key.
\<close>

theorem C6_keys_non_empty:
  assumes "colCount matrix \<noteq> Num 2" and "2 \<le> length matrix"
  shows "\<exists>rows. table_rows matrix = Inr rows \<and>
           (\<forall>rec \<in> set rows.
              distinct (map fst rec) \<and> [] \<notin> fst ` set rec \<and>
              fst ` set rec \<subseteq> set (headers_of (norm_of matrix ! 0)))"
proof -
  define hs where "hs = headers_of (norm_of matrix ! 0)"
  define rows where "rows = map (row_object hs) (drop 1 (norm_of matrix))"
  have t: "table_rows matrix = Inr rows"
    using table_rows_header_table[OF assms] by (simp add: rows_def hs_def)
  have "\<forall>rec \<in> set rows. distinct (map fst rec) \<and> [] \<notin> fst ` set rec \<and> fst ` set rec \<subseteq> set hs"
  proof
    fix rec assume "rec \<in> set rows"
    then obtain r where rec: "rec = row_object hs r" by (auto simp: rows_def)
    have "[] \<notin> set hs" unfolding hs_def by (rule headers_of_nonempty)
    then show "distinct (map fst rec) \<and> [] \<notin> fst ` set rec \<and> fst ` set rec \<subseteq> set hs"
      unfolding rec keys_row_object by (auto simp: distinct_row_object)
  qed
  with t show ?thesis unfolding hs_def by blast
qed

theorem C6_keys_non_empty_witness:
  "colCount [[''Day'', '''', ''Room''], [''TR'']] \<noteq> Num 2 \<and>
   2 \<le> length [[''Day'', '''', ''Room''], [''TR'']] \<and>
   (\<exists>rows. table_rows [[''Day'', '''', ''Room''], [''TR'']] = Inr rows \<and>
      (\<forall>rec \<in> set rows.
         distinct (map fst rec) \<and> [] \<notin> fst ` set rec \<and>
         fst ` set rec \<subseteq> {''Day'', ''col_2'', ''Room''}))"
proof -
  have c: "colCount [[''Day'', '''', ''Room''], [''TR'']] \<noteq> Num 2" by code_simp
  have l: "2 \<le> length [[''Day'', '''', ''Room''], [''TR'']]" by simp
  have h: "set (headers_of (norm_of [[''Day'', '''', ''Room''], [''TR'']] ! 0)) = {''Day'', ''col_2'', ''Room''}"
    by code_simp
  show ?thesis
    using c l C6_keys_non_empty[OF c l] unfolding h by simp
qed

text \<open>
  The claim C6 as it is stated fails: the placeholder does not make the field names
  pairwise different. With the header cells \<open>col_2\<close>, empty, \<open>Room\<close> the columns 0 and 1
  both get the key \<open>col_2\<close>, and the record keeps the cell of column 1 only.
\<close>

theorem C6_placeholder_clash_counterexample:
  "colCount [[''col_2'', '''', ''Room''], [''a'', ''b'', ''c'']] = Num 3 \<and>
   headers_of [''col_2'', '''', ''Room''] = [''col_2'', ''col_2'', ''Room''] \<and>
   table_rows [[''col_2'', '''', ''Room''], [''a'', ''b'', ''c'']] =
     Inr [[(''col_2'', ''b''), (''Room'', ''c'')]]"
  by code_simp

text \<open>
  Claim C10, as amended: for every rectangular two-column matrix, every record that the
  normalization emits holds exactly one key; after the record of the first row's special
  case (if any), the result holds one record for each row of index at least 1 whose left
  cell is not empty, in the order of the rows, made of that row's left and right cell, and
  no record for the other rows. So for these rows the emission depends on the left cell
  only, and a row with a non-empty left cell and an empty right cell yields a record whose
  value is the empty string.
\<close>

theorem C10_single_key_records:
  assumes "rectangular 2 matrix"
  shows "\<exists>rows. table_rows matrix = Inr rows \<and>
           (\<forall>rec \<in> set rows. length rec = 1) \<and>
           rows = call_number_rows matrix @
                  map (\<lambda>i. [(matrix ! i ! 0, matrix ! i ! 1)])
                    (filter (\<lambda>i. matrix ! i ! 0 \<noteq> []) [1..<length matrix])"
proof -
  have "map (\<lambda>r. [(r ! 0, r ! 1)]) (filter (\<lambda>r. r ! 0 \<noteq> []) (drop 1 matrix)) =
        map (\<lambda>i. [(matrix ! i ! 0, matrix ! i ! 1)])
          (filter (\<lambda>i. matrix ! i ! 0 \<noteq> []) [1..<length matrix])"
    unfolding drop_one_nth by (simp add: filter_map comp_def)
  moreover have "\<forall>rec \<in> set (call_number_rows matrix). length rec = 1"
    by (simp add: call_number_rows_def)
  ultimately show ?thesis
    by (auto simp: table_rows_rectangular_two[OF assms])
qed

theorem C10_single_key_records_witness:
  "rectangular 2 [[''98765'', ''Call Number''], [''Lecture'', ''''], ['''', ''Points'']] \<and>
   (\<exists>rows. table_rows [[''98765'', ''Call Number''], [''Lecture'', ''''], ['''', ''Points'']] = Inr rows \<and>
      (\<forall>rec \<in> set rows. length rec = 1) \<and>
      rows = [[(''Call Number'', ''98765'')], [(''Lecture'', '''')]])"
proof -
  have r: "rectangular 2 [[''98765'', ''Call Number''], [''Lecture'', ''''], ['''', ''Points'']]"
    by (simp add: rectangular_def)
  have c: "call_number_rows [[''98765'', ''Call Number''], [''Lecture'', ''''], ['''', ''Points'']]
             = [[(''Call Number'', ''98765'')]]"
    by code_simp
  have u: "[1..<3] = [1, 2]" by code_simp
  show ?thesis
    using r C10_single_key_records[OF r] by (simp add: c u)
qed

text \<open>
  The claim C10 as it is stated speaks of every row. It fails for row 0, whose record
  depends on the right cell as well: a first row with a non-empty left cell and an empty
  right cell emits no record.
\<close>

theorem C10_first_row_counterexample:
  "rectangular 2 [[''Lecture'', '''']] \<and> [[''Lecture'', '''']] ! 0 ! 0 \<noteq> [] \<and>
   table_rows [[''Lecture'', '''']] = Inr []"
  by code_simp

section \<open>Properties of the link discovery\<close>

lemma set_fold_Set_add: "set (fold Set_add xs s) = set s \<union> set xs"
  by (induction xs arbitrary: s) (auto simp: Set_add_def)

lemma distinct_fold_Set_add: "distinct s \<Longrightarrow> distinct (fold Set_add xs s)"
  by (induction xs arbitrary: s) (auto simp: Set_add_def)

lemma set_Array_from_Set: "set (Array_from_Set xs) = set xs"
  by (simp add: Array_from_Set_def set_fold_Set_add)

lemma distinct_Array_from_Set: "distinct (Array_from_Set xs)"
  by (simp add: Array_from_Set_def distinct_fold_Set_add)

lemma Promise_all_resolved: "Promise_all (map (\<lambda>x. Inr (f x)) xs) = Inr (map f xs)"
  by (induction xs) simp_all

lemma discoverCourseLinks_eq:
  "discoverCourseLinks new_URL page frames termCode =
     Inr (Array_from_Set (catch (grab new_URL termCode page) [] @
            concat (map (\<lambda>f. catch (grab new_URL termCode f) []) frames)))"
  by (simp add: discoverCourseLinks_def Promise_all_resolved)

lemma set_catch_grab:
  "set (catch (grab new_URL t c) []) = {u. \<exists>l. grab new_URL t c = Inr l \<and> u \<in> set l}"
  by (cases "grab new_URL t c") (simp_all add: catch_def)

lemma set_discoverCourseLinks:
  assumes "discoverCourseLinks new_URL page frames t = Inr links"
  shows "set links = {u. \<exists>c \<in> set (page # frames). \<exists>l. grab new_URL t c = Inr l \<and> u \<in> set l}"
proof -
  from assms have "set links = set (catch (grab new_URL t page) []) \<union>
      (\<Union>f \<in> set frames. set (catch (grab new_URL t f) []))"
    by (auto simp: discoverCourseLinks_eq set_Array_from_Set)
  then show ?thesis unfolding set_catch_grab by auto
qed

lemma in_normalized:
  "u \<in> set (filter (\<lambda>u. u \<noteq> []) (map (normalize_href new_URL base) hs)) \<longleftrightarrow>
     (\<exists>href \<in> set hs. \<exists>full. new_URL href base = Some full \<and> u = split_hash_first full \<and> u \<noteq> [])"
proof
  assume "u \<in> set (filter (\<lambda>u. u \<noteq> []) (map (normalize_href new_URL base) hs))"
  then obtain href where h: "href \<in> set hs" and u: "u = normalize_href new_URL base href" and ne: "u \<noteq> []"
    by auto
  from u ne obtain full where "new_URL href base = Some full" "u = split_hash_first full"
    by (cases "new_URL href base") (simp_all add: normalize_href_def)
  with h ne show "\<exists>href \<in> set hs. \<exists>full. new_URL href base = Some full \<and> u = split_hash_first full \<and> u \<noteq> []"
    by blast
next
  assume "\<exists>href \<in> set hs. \<exists>full. new_URL href base = Some full \<and> u = split_hash_first full \<and> u \<noteq> []"
  then obtain href full where h: "href \<in> set hs" and f: "new_URL href base = Some full"
    and u: "u = split_hash_first full" and ne: "u \<noteq> []" by blast
  from f u have "u = normalize_href new_URL base href" by (simp add: normalize_href_def)
  with h ne show "u \<in> set (filter (\<lambda>u. u \<noteq> []) (map (normalize_href new_URL base) hs))"
    by auto
qed

lemma set_grab:
  assumes "grab new_URL t c = Inr l"
  shows "set l = {u. \<exists>href \<in> set (anchors c). matches t href \<and>
               (\<exists>full. new_URL href (origin c) = Some full \<and> u = split_hash_first full \<and> u \<noteq> [])}"
proof -
  from assms have "l = Array_from_Set (filter (\<lambda>u. u \<noteq> [])
      (map (normalize_href new_URL (origin c)) (filter (matches t) (anchors c))))"
    by (simp add: grab_def split: if_splits)
  then have "\<And>u. u \<in> set l \<longleftrightarrow>
      (\<exists>href \<in> set (filter (matches t) (anchors c)).
         \<exists>full. new_URL href (origin c) = Some full \<and> u = split_hash_first full \<and> u \<noteq> [])"
    by (simp only: set_Array_from_Set in_normalized)
  then have "\<And>u. u \<in> set l \<longleftrightarrow>
      (\<exists>href \<in> set (anchors c). matches t href \<and>
         (\<exists>full. new_URL href (origin c) = Some full \<and> u = split_hash_first full \<and> u \<noteq> []))"
    by (simp add: Bex_def conj_assoc)
  then show ?thesis by blast
qed

lemma distinct_grab: "grab new_URL t c = Inr l \<Longrightarrow> distinct l"
  by (auto simp: grab_def distinct_Array_from_Set split: if_splits)

lemma no_hash_split_hash_first: "CHR ''#'' \<notin> set (split_hash_first u)"
  by (auto simp: split_hash_first_def dest: set_takeWhileD)

lemma grab_fails: "evaluate_fails c \<Longrightarrow> grab new_URL t c = Inl EvaluateError"
  by (simp add: grab_def)

lemma grab_succeeds: "grab new_URL t c = Inr l \<Longrightarrow> \<not> evaluate_fails c"
  by (auto simp: grab_def)

lemma concat_skip_failed:
  "concat (map (\<lambda>f. catch (grab new_URL t f) []) (filter (\<lambda>c. \<not> evaluate_fails c) frames)) =
   concat (map (\<lambda>f. catch (grab new_URL t f) []) frames)"
  by (induction frames) (simp_all add: grab_fails catch_def)

lemma grab_drop_href:
  "\<not> matches t href \<or> new_URL href (origin c) = None \<Longrightarrow>
   grab new_URL t (c\<lparr>anchors := hs1 @ href # hs2\<rparr>) = grab new_URL t (c\<lparr>anchors := hs1 @ hs2\<rparr>)"
  by (auto simp: grab_def normalize_href_def)

text \<open>
  Claim C7, as amended: every URL in the output of link discovery is the fragment-stripped
  resolution of a href that contains the subject path marker \<open>/subj/COMS/\<close> and the
  delimited term code \<open>-<termCode>-\<close>; a href that does not contain the delimited term
  code contributes nothing to the output, even if it contains the subject path marker.
  (The filter reads the href as written in the document, not the resolved URL.)
\<close>

theorem C7_links_come_from_matching_hrefs:
  "(discoverCourseLinks new_URL page frames t = Inr links \<longrightarrow>
      (\<forall>u \<in> set links. \<exists>c \<in> set (page # frames). \<exists>href \<in> set (anchors c).
          str_includes href ''/subj/COMS/'' \<and> str_includes href (''-'' @ t @ ''-'') \<and>
          (\<exists>full. new_URL href (origin c) = Some full \<and> u = split_hash_first full))) \<and>
   (\<not> str_includes href (''-'' @ t @ ''-'') \<longrightarrow>
      grab new_URL t (c\<lparr>anchors := hs1 @ href # hs2\<rparr>) = grab new_URL t (c\<lparr>anchors := hs1 @ hs2\<rparr>))"
proof (intro conjI impI ballI)
  fix u
  assume l: "discoverCourseLinks new_URL page frames t = Inr links" and u: "u \<in> set links"
  from u obtain c l' where c: "c \<in> set (page # frames)" and g: "grab new_URL t c = Inr l'" and ul: "u \<in> set l'"
    unfolding set_discoverCourseLinks[OF l] by blast
  from ul obtain href full where "href \<in> set (anchors c)" "matches t href"
      "new_URL href (origin c) = Some full" "u = split_hash_first full"
    unfolding set_grab[OF g] by blast
  with c show "\<exists>c \<in> set (page # frames). \<exists>href \<in> set (anchors c).
          str_includes href ''/subj/COMS/'' \<and> str_includes href (''-'' @ t @ ''-'') \<and>
          (\<exists>full. new_URL href (origin c) = Some full \<and> u = split_hash_first full)"
    unfolding matches_def by blast
next
  assume "\<not> str_includes href (''-'' @ t @ ''-'')"
  then have "\<not> matches t href" by (simp add: matches_def)
  then show "grab new_URL t (c\<lparr>anchors := hs1 @ href # hs2\<rparr>) = grab new_URL t (c\<lparr>anchors := hs1 @ hs2\<rparr>)"
    by (simp add: grab_drop_href)
qed

theorem C7_links_come_from_matching_hrefs_witness:
  "discoverCourseLinks sample_URL
     \<lparr>origin = ''https://doc.sis.columbia.edu'',
      anchors = [''/subj/COMS/W4701-20253-001/'', ''/subj/COMS/W4701-20251-001/''],
      evaluate_fails = False\<rparr> [] ''20253'' =
     Inr [''https://doc.sis.columbia.edu/subj/COMS/W4701-20253-001/''] \<and>
   \<not> str_includes ''/subj/COMS/W4701-20251-001/'' (''-'' @ ''20253'' @ ''-'') \<and>
   grab sample_URL ''20253''
     \<lparr>origin = ''https://doc.sis.columbia.edu'',
      anchors = [''/subj/COMS/W4701-20253-001/'', ''/subj/COMS/W4701-20251-001/''],
      evaluate_fails = False\<rparr> =
   grab sample_URL ''20253''
     \<lparr>origin = ''https://doc.sis.columbia.edu'',
      anchors = [''/subj/COMS/W4701-20253-001/''], evaluate_fails = False\<rparr> \<and>
   (\<exists>href \<in> {''/subj/COMS/W4701-20253-001/'', ''/subj/COMS/W4701-20251-001/''}.
      str_includes href ''/subj/COMS/'' \<and> str_includes href (''-'' @ ''20253'' @ ''-'') \<and>
      (\<exists>full. sample_URL href ''https://doc.sis.columbia.edu'' = Some full \<and>
         ''https://doc.sis.columbia.edu/subj/COMS/W4701-20253-001/'' = split_hash_first full))"
proof -
  let ?P = "\<lparr>origin = ''https://doc.sis.columbia.edu'',
      anchors = [''/subj/COMS/W4701-20253-001/'', ''/subj/COMS/W4701-20251-001/''],
      evaluate_fails = False\<rparr>"
  have e: "discoverCourseLinks sample_URL ?P [] ''20253'' =
     Inr [''https://doc.sis.columbia.edu/subj/COMS/W4701-20253-001/'']"
    by code_simp
  have n: "\<not> str_includes ''/subj/COMS/W4701-20251-001/'' (''-'' @ ''20253'' @ ''-'')"
    by code_simp
  from C7_links_come_from_matching_hrefs[where new_URL = sample_URL and page = ?P and frames = "[]"
         and t = "''20253''"
         and links = "[''https://doc.sis.columbia.edu/subj/COMS/W4701-20253-001/'']"
         and href = "''/subj/COMS/W4701-20251-001/''" and c = ?P
         and ?hs1.0 = "[''/subj/COMS/W4701-20253-001/'']" and ?hs2.0 = "[]"]
       e n
  show ?thesis by simp
qed

text \<open>
  The claim C7 as it is stated fails twice on one document. A href that carries the term
  code in its fragment passes the filter, and the URL in the output, without the fragment,
  does not contain the term code. A href that contains the segment of another term next to
  the one of the target term is not excluded.
\<close>

theorem C7_fragment_counterexample:
  "discoverCourseLinks sample_URL
     \<lparr>origin = ''https://doc.sis.columbia.edu'',
      anchors = [''/subj/COMS/#-20253-'', ''/subj/COMS/W4701-20251-20253-001/''],
      evaluate_fails = False\<rparr> [] ''20253'' =
     Inr [''https://doc.sis.columbia.edu/subj/COMS/'',
          ''https://doc.sis.columbia.edu/subj/COMS/W4701-20251-20253-001/''] \<and>
   \<not> str_includes ''https://doc.sis.columbia.edu/subj/COMS/'' ''-20253-'' \<and>
   str_includes ''/subj/COMS/W4701-20251-20253-001/'' ''-20251-''"
  by code_simp

text \<open>
  Claim C8: in one context the extraction yields, without duplicates, the non-empty
  fragment-stripped forms of the matching hrefs, each resolved against the origin of that
  context's own location; a href that the URL parser rejects is dropped. The union over
  the top document and the frames has no duplicates, no entry contains \<open>#\<close>, and it is
  the union of the contexts' results, so a URL found with a fragment in one context and
  without it in another is a single entry.
\<close>

theorem C8_resolved_stripped_deduplicated:
  "(\<forall>l. grab new_URL t c = Inr l \<longrightarrow>
        distinct l \<and>
        set l = {u. \<exists>href \<in> set (anchors c). matches t href \<and>
                    (\<exists>full. new_URL href (origin c) = Some full \<and>
                            u = split_hash_first full \<and> u \<noteq> [])}) \<and>
   (new_URL href (origin c) = None \<longrightarrow>
      grab new_URL t (c\<lparr>anchors := hs1 @ href # hs2\<rparr>) = grab new_URL t (c\<lparr>anchors := hs1 @ hs2\<rparr>)) \<and>
   (\<exists>links. discoverCourseLinks new_URL page frames t = Inr links \<and> distinct links \<and>
      (\<forall>u \<in> set links. CHR ''#'' \<notin> set u) \<and>
      set links = {u. \<exists>c \<in> set (page # frames). \<exists>l. grab new_URL t c = Inr l \<and> u \<in> set l})"
proof (intro conjI allI impI)
  fix l assume g: "grab new_URL t c = Inr l"
  then show "distinct l" by (rule distinct_grab)
  from g show "set l = {u. \<exists>href \<in> set (anchors c). matches t href \<and>
                    (\<exists>full. new_URL href (origin c) = Some full \<and>
                            u = split_hash_first full \<and> u \<noteq> [])}"
    by (rule set_grab)
next
  assume "new_URL href (origin c) = None"
  then show "grab new_URL t (c\<lparr>anchors := hs1 @ href # hs2\<rparr>) = grab new_URL t (c\<lparr>anchors := hs1 @ hs2\<rparr>)"
    by (simp add: grab_drop_href)
next
  obtain links where l: "discoverCourseLinks new_URL page frames t = Inr links"
    by (simp add: discoverCourseLinks_eq)
  then have d: "distinct links"
    by (auto simp: discoverCourseLinks_eq distinct_Array_from_Set)
  note s = set_discoverCourseLinks[OF l]
  have "\<forall>u \<in> set links. CHR ''#'' \<notin> set u"
  proof
    fix u assume "u \<in> set links"
    then obtain c l where "grab new_URL t c = Inr l" "u \<in> set l" unfolding s by blast
    then obtain full where "u = split_hash_first full" by (auto simp: set_grab)
    then show "CHR ''#'' \<notin> set u" by (simp add: no_hash_split_hash_first)
  qed
  with l d s show "\<exists>links. discoverCourseLinks new_URL page frames t = Inr links \<and> distinct links \<and>
      (\<forall>u \<in> set links. CHR ''#'' \<notin> set u) \<and>
      set links = {u. \<exists>c \<in> set (page # frames). \<exists>l. grab new_URL t c = Inr l \<and> u \<in> set l}"
    by blast
qed

theorem C8_resolved_stripped_deduplicated_witness:
  "sample_URL ''http://[/subj/COMS/W4701-20253-002/'' ''https://doc.sis.columbia.edu'' = None \<and>
   grab sample_URL ''20253''
     \<lparr>origin = ''https://doc.sis.columbia.edu'',
      anchors = [''/subj/COMS/W4701-20253-001/#top'', ''http://[/subj/COMS/W4701-20253-002/''],
      evaluate_fails = False\<rparr> =
   grab sample_URL ''20253''
     \<lparr>origin = ''https://doc.sis.columbia.edu'',
      anchors = [''/subj/COMS/W4701-20253-001/#top''], evaluate_fails = False\<rparr> \<and>
   discoverCourseLinks sample_URL
     \<lparr>origin = ''https://doc.sis.columbia.edu'',
      anchors = [''/subj/COMS/W4701-20253-001/#top'', ''http://[/subj/COMS/W4701-20253-002/''],
      evaluate_fails = False\<rparr>
     [\<lparr>origin = ''https://doc.sis.columbia.edu'',
       anchors = [''/subj/COMS/W4701-20253-001/''], evaluate_fails = False\<rparr>] ''20253'' =
     Inr [''https://doc.sis.columbia.edu/subj/COMS/W4701-20253-001/''] \<and>
   CHR ''#'' \<notin> set ''https://doc.sis.columbia.edu/subj/COMS/W4701-20253-001/''"
proof -
  let ?P = "\<lparr>origin = ''https://doc.sis.columbia.edu'',
      anchors = [''/subj/COMS/W4701-20253-001/#top'', ''http://[/subj/COMS/W4701-20253-002/''],
      evaluate_fails = False\<rparr>"
  let ?Fs = "[\<lparr>origin = ''https://doc.sis.columbia.edu'',
       anchors = [''/subj/COMS/W4701-20253-001/''], evaluate_fails = False\<rparr>]"
  have n: "sample_URL ''http://[/subj/COMS/W4701-20253-002/'' ''https://doc.sis.columbia.edu'' = None"
    by code_simp
  have e: "discoverCourseLinks sample_URL ?P ?Fs ''20253'' =
     Inr [''https://doc.sis.columbia.edu/subj/COMS/W4701-20253-001/'']"
    by code_simp
  from C8_resolved_stripped_deduplicated[where new_URL = sample_URL and t = "''20253''" and c = ?P
         and href = "''http://[/subj/COMS/W4701-20253-002/''"
         and ?hs1.0 = "[''/subj/COMS/W4701-20253-001/#top'']" and ?hs2.0 = "[]"
         and page = ?P and frames = ?Fs]
       n e
  show ?thesis by simp
qed

text \<open>
  Claim C9: link discovery always returns a list and never fails, whichever contexts fail.
  The list holds exactly the links gathered from the contexts whose evaluation succeeds; a
  context whose evaluation throws contributes nothing: the result is the same without the
  failing frames, and the same with a failing top document replaced by a document without
  anchors.
\<close>

theorem C9_failed_context_contributes_nothing:
  "\<exists>links. discoverCourseLinks new_URL page frames t = Inr links \<and>
     set links = {u. \<exists>c \<in> set (page # frames). \<not> evaluate_fails c \<and>
                     (\<exists>l. grab new_URL t c = Inr l \<and> u \<in> set l)} \<and>
     (\<forall>c \<in> set (page # frames). evaluate_fails c \<longrightarrow> grab new_URL t c = Inl EvaluateError) \<and>
     discoverCourseLinks new_URL page (filter (\<lambda>c. \<not> evaluate_fails c) frames) t = Inr links \<and>
     (evaluate_fails page \<longrightarrow>
        discoverCourseLinks new_URL (page\<lparr>anchors := [], evaluate_fails := False\<rparr>) frames t = Inr links)"
proof -
  obtain links where l: "discoverCourseLinks new_URL page frames t = Inr links"
    by (simp add: discoverCourseLinks_eq)
  have s: "set links = {u. \<exists>c \<in> set (page # frames). \<not> evaluate_fails c \<and>
                     (\<exists>l. grab new_URL t c = Inr l \<and> u \<in> set l)}"
    unfolding set_discoverCourseLinks[OF l] using grab_succeeds by blast
  have f: "\<forall>c \<in> set (page # frames). evaluate_fails c \<longrightarrow> grab new_URL t c = Inl EvaluateError"
    by (simp add: grab_fails)
  have d: "discoverCourseLinks new_URL page (filter (\<lambda>c. \<not> evaluate_fails c) frames) t = Inr links"
    using l by (simp add: discoverCourseLinks_eq concat_skip_failed)
  have p: "evaluate_fails page \<longrightarrow>
        discoverCourseLinks new_URL (page\<lparr>anchors := [], evaluate_fails := False\<rparr>) frames t = Inr links"
  proof
    assume ef: "evaluate_fails page"
    then have a: "catch (grab new_URL t page) [] = []"
      by (simp add: grab_fails catch_def)
    have b: "catch (grab new_URL t (page\<lparr>anchors := [], evaluate_fails := False\<rparr>)) [] = []"
      by (simp add: grab_def catch_def Array_from_Set_def)
    from l show "discoverCourseLinks new_URL (page\<lparr>anchors := [], evaluate_fails := False\<rparr>) frames t = Inr links"
      unfolding discoverCourseLinks_eq a b .
  qed
  from l s f d p show ?thesis by blast
qed

theorem C9_failed_context_contributes_nothing_witness:
  "evaluate_fails \<lparr>origin = ''https://doc.sis.columbia.edu'',
                   anchors = [''/subj/COMS/W4701-20253-001/''], evaluate_fails = True\<rparr> \<and>
   discoverCourseLinks sample_URL
     \<lparr>origin = ''https://doc.sis.columbia.edu'',
      anchors = [''/subj/COMS/W4701-20253-001/''], evaluate_fails = True\<rparr>
     [\<lparr>origin = ''https://doc.sis.columbia.edu'',
       anchors = [''/subj/COMS/W4115-20253-001/''], evaluate_fails = False\<rparr>,
      \<lparr>origin = ''https://example.org'',
       anchors = [''/subj/COMS/W4995-20253-002/''], evaluate_fails = True\<rparr>] ''20253'' =
     Inr [''https://doc.sis.columbia.edu/subj/COMS/W4115-20253-001/''] \<and>
   discoverCourseLinks sample_URL
     \<lparr>origin = ''https://doc.sis.columbia.edu'', anchors = [], evaluate_fails = False\<rparr>
     [\<lparr>origin = ''https://doc.sis.columbia.edu'',
       anchors = [''/subj/COMS/W4115-20253-001/''], evaluate_fails = False\<rparr>,
      \<lparr>origin = ''https://example.org'',
       anchors = [''/subj/COMS/W4995-20253-002/''], evaluate_fails = True\<rparr>] ''20253'' =
     Inr [''https://doc.sis.columbia.edu/subj/COMS/W4115-20253-001/'']"
proof -
  let ?P = "\<lparr>origin = ''https://doc.sis.columbia.edu'',
      anchors = [''/subj/COMS/W4701-20253-001/''], evaluate_fails = True\<rparr>"
  let ?Fs = "[\<lparr>origin = ''https://doc.sis.columbia.edu'',
       anchors = [''/subj/COMS/W4115-20253-001/''], evaluate_fails = False\<rparr>,
      \<lparr>origin = ''https://example.org'',
       anchors = [''/subj/COMS/W4995-20253-002/''], evaluate_fails = True\<rparr>]"
  have e: "discoverCourseLinks sample_URL ?P ?Fs ''20253'' =
     Inr [''https://doc.sis.columbia.edu/subj/COMS/W4115-20253-001/'']"
    by code_simp
  from C9_failed_context_contributes_nothing[of sample_URL ?P ?Fs "''20253''"] e
  show ?thesis by simp
qed

end
